theory Spec2Isabelle
  imports Complex_Main "HOL-Library.Word" "HOL-Library.Signed_Division"
begin

unbundle bit_operations_syntax

section \<open>whispertype: capture, segmentation and transcription pipeline\<close>

text \<open>
  A shallow embedding of \<^verbatim>\<open>main.go\<close>: the silence classifier \<^verbatim>\<open>isSilent\<close>, the WAV
  encoder \<^verbatim>\<open>writeWavToBuffer\<close>, the backend client \<^verbatim>\<open>transcribeChunk\<close>, the splitter
  \<^verbatim>\<open>transcribeInChunks\<close>, the channel read \<^verbatim>\<open>readNextChunk\<close> and the segmentation loop
  of \<^verbatim>\<open>run\<close> with \<^verbatim>\<open>finalizeTranscript\<close>.
\<close>

subsection \<open>Machine types and constants\<close>

type_synonym byte = "8 word"
type_synonym int16 = "16 word"
type_synonym uint16 = "16 word"
type_synonym uint32 = "32 word"
type_synonym int64 = "64 word"

text \<open>
  A Go string is modelled by the sequence of its code points (the text field decoded from
  JSON is valid UTF-8). A \<^verbatim>\<open>time.Time\<close> is a number of nanoseconds counted from the zero
  Time, so \<^verbatim>\<open>IsZero\<close> is equality with 0; a \<^verbatim>\<open>time.Duration\<close> is a number of nanoseconds.
\<close>

type_synonym rune = nat
type_synonym str = "rune list"
type_synonym time = int
type_synonym duration = int

definition sampleRate :: int where
  "sampleRate = 16000"

definition channels :: int where
  "channels = 1"

definition silenceDuration :: duration where
  "silenceDuration = 300 * 1000000"

definition energyThreshold :: int64 where
  "energyThreshold = 80"

text \<open>
  \<^verbatim>\<open>int(minChunkDuration.Seconds() * float64(sampleRate))\<close> and
  \<^verbatim>\<open>int(chunkOverlap.Seconds() * float64(sampleRate))\<close>: the products 1.0 * 16000.0 and
  0.5 * 16000.0 are exact in binary floating point.
\<close>

definition samplesPerChunk :: nat where
  "samplesPerChunk = 16000"

definition overlapSamples :: nat where
  "overlapSamples = 8000"

definition ascii :: "string \<Rightarrow> byte list" where
  "ascii s = map of_char s"

definition runes :: "string \<Rightarrow> str" where
  "runes s = map of_char s"

subsection \<open>Errors and panics\<close>

text \<open>
  The constructors with an argument of type error mirror the wrapping done by
  \<^verbatim>\<open>fmt.Errorf("...: %w", err)\<close>.
\<close>

datatype error =
    CreatingRequest
  | ExecutingRequest
  | BadStatus nat
  | DecodingResponse
  | TranscriptionError error
  | FinalTranscriptionError error
  | TranscribingChunkAt nat error

datatype panic = DivideByZero

subsection \<open>isSilent\<close>

text \<open>
  \<^verbatim>\<open>sum / int64(len(data))\<close>: Go's integer quotient truncates towards zero and panics on a
  zero divisor. The threshold, an \<^verbatim>\<open>int\<close> converted by \<^verbatim>\<open>int64(threshold)\<close>, is taken as the
  64-bit value it is.
\<close>

definition int64_quot :: "int64 \<Rightarrow> int64 \<Rightarrow> panic + int64" where
  "int64_quot a b =
     (if b = 0 then Inl DivideByZero else Inr (word_of_int (sint a sdiv sint b)))"

text \<open>
  The loop body: the sample is negated as an \<^verbatim>\<open>int16\<close> when it is negative, then widened
  to \<^verbatim>\<open>int64\<close> and added.
\<close>

definition add_abs :: "int64 \<Rightarrow> int16 \<Rightarrow> int64" where
  "add_abs acc sample =
     (let sample = (if sample <s 0 then - sample else sample) in acc + scast sample)"

definition isSilent :: "int16 list \<Rightarrow> int64 \<Rightarrow> panic + bool" where
  "isSilent data threshold =
     (let total = foldl add_abs 0 data in
      case int64_quot total (word_of_nat (length data)) of
        Inl p \<Rightarrow> Inl p
      | Inr avg \<Rightarrow> Inr (avg <s threshold))"

text \<open>
  The energy of the specification: the mean of the absolute sample values, as a real number.
\<close>

definition amplitude :: "int16 \<Rightarrow> int" where
  "amplitude s = \<bar>sint s\<bar>"

definition energy :: "int16 list \<Rightarrow> real" where
  "energy f = real_of_int (\<Sum>s\<leftarrow>f. amplitude s) / real (length f)"

subsection \<open>writeWavToBuffer\<close>

text \<open>\<^verbatim>\<open>binary.Write(buffer, binary.LittleEndian, v)\<close> for 16-bit and 32-bit values.\<close>

definition le16 :: "16 word \<Rightarrow> byte list" where
  "le16 w = [ucast w, ucast (drop_bit 8 w)]"

definition le32 :: "uint32 \<Rightarrow> byte list" where
  "le32 w = [ucast w, ucast (drop_bit 8 w), ucast (drop_bit 16 w), ucast (drop_bit 24 w)]"

text \<open>
  The function appends to the buffer it is given. Its error result is always nil (writing a
  fixed-size value to a \<^verbatim>\<open>bytes.Buffer\<close> cannot fail), so the model returns the buffer only.
  The conversions \<^verbatim>\<open>uint32(...)\<close> and \<^verbatim>\<open>uint16(...)\<close> truncate.
\<close>

definition writeWavToBuffer :: "byte list \<Rightarrow> int16 list \<Rightarrow> int \<Rightarrow> int \<Rightarrow> byte list" where
  "writeWavToBuffer buffer samples sampleRate' channels' =
     (let bitsPerSample = 16;
          byteRate = (word_of_int (sampleRate' * channels' * (bitsPerSample div 8)) :: uint32);
          blockAlign = (word_of_int (channels' * (bitsPerSample div 8)) :: uint16);
          dataBuf = concat (map le16 samples);
          dataSize = (word_of_nat (length dataBuf) :: uint32)
      in buffer
         @ ascii ''RIFF'' @ le32 (36 + dataSize) @ ascii ''WAVE''
         @ ascii ''fmt '' @ le32 16 @ le16 1
         @ le16 (word_of_int channels') @ le32 (word_of_int sampleRate')
         @ le32 byteRate @ le16 blockAlign @ le16 (word_of_int bitsPerSample)
         @ ascii ''data'' @ le32 dataSize @ dataBuf)"

text \<open>
  A reader for the canonical 44-byte layout, written from the format the specification
  names: RIFF/WAVE magic, a 16-byte "fmt " subchunk, a "data" subchunk whose size field
  counts the bytes of little-endian 16-bit samples that follow.
\<close>

fun u16le :: "byte list \<Rightarrow> 16 word" where
  "u16le (b0 # b1 # _) = ucast b0 OR push_bit 8 (ucast b1)"
| "u16le _ = 0"

fun u32le :: "byte list \<Rightarrow> uint32" where
  "u32le (b0 # b1 # b2 # b3 # _) =
     ucast b0 OR push_bit 8 (ucast b1) OR push_bit 16 (ucast b2) OR push_bit 24 (ucast b3)"
| "u32le _ = 0"

fun pcm16 :: "byte list \<Rightarrow> int16 list" where
  "pcm16 (b0 # b1 # bs) = u16le [b0, b1] # pcm16 bs"
| "pcm16 _ = []"

record wav =
  audioFormat :: uint16
  numChannels :: uint16
  sampleRateHz :: uint32
  bitsPerSample :: uint16
  dataSize :: uint32
  pcm :: "int16 list"

definition parseWav :: "byte list \<Rightarrow> wav option" where
  "parseWav bs =
     (if length bs < 44 \<or> take 4 bs \<noteq> ascii ''RIFF'' \<or> take 4 (drop 8 bs) \<noteq> ascii ''WAVE''
         \<or> take 4 (drop 12 bs) \<noteq> ascii ''fmt '' \<or> u32le (drop 16 bs) \<noteq> 16
         \<or> take 4 (drop 36 bs) \<noteq> ascii ''data''
      then None
      else let n = unat (u32le (drop 40 bs)) in
        if length bs < 44 + n then None
        else Some \<lparr>audioFormat = u16le (drop 20 bs), numChannels = u16le (drop 22 bs),
                   sampleRateHz = u32le (drop 24 bs), bitsPerSample = u16le (drop 34 bs),
                   dataSize = u32le (drop 40 bs), pcm = pcm16 (take n (drop 44 bs))\<rparr>)"

subsection \<open>transcribeChunk\<close>

text \<open>
  What the HTTP exchange with the backend comes to: the request cannot be built, the
  transport fails (the 30 s client timeout included), or a response arrives with a status
  code and the outcome of decoding its body as JSON into \<^verbatim>\<open>struct{Text string}\<close>: None when
  the decoder fails, otherwise the value of the text field. A backend maps the WAV file of
  the multipart form to such an exchange.
\<close>

datatype exchange =
    InvalidRequest
  | TransportFailure
  | Response nat "str option"

type_synonym backend = "byte list \<Rightarrow> exchange"

text \<open>
  \<^verbatim>\<open>unicode.IsSpace\<close> (the code points with the White_Space property) and
  \<^verbatim>\<open>strings.TrimSpace\<close>, which removes them from both ends.
\<close>

definition isSpace :: "rune \<Rightarrow> bool" where
  "isSpace r \<longleftrightarrow>
     (9 \<le> r \<and> r \<le> 13) \<or> r = 32 \<or> r = 133 \<or> r = 160 \<or> r = 5760 \<or>
     (8192 \<le> r \<and> r \<le> 8202) \<or> r = 8232 \<or> r = 8233 \<or> r = 8239 \<or> r = 8287 \<or> r = 12288"

definition TrimSpace :: "str \<Rightarrow> str" where
  "TrimSpace s = rev (dropWhile isSpace (rev (dropWhile isSpace s)))"

text \<open>
  The WAV file is written into the emptied \<^verbatim>\<open>wavBuffer\<close> and posted. The other error
  returns of the source (writing the WAV buffer, creating the form file, copying, adding
  the field, closing the writer) guard writes to in-memory buffers, which do not fail.
\<close>

definition transcribeChunk :: "backend \<Rightarrow> int16 list \<Rightarrow> error + str" where
  "transcribeChunk server samples =
     (let wavBuffer = writeWavToBuffer [] samples sampleRate channels in
      case server wavBuffer of
        InvalidRequest \<Rightarrow> Inl CreatingRequest
      | TransportFailure \<Rightarrow> Inl ExecutingRequest
      | Response status decoded \<Rightarrow>
          if status \<noteq> 200 then Inl (BadStatus status)
          else (case decoded of
                  None \<Rightarrow> Inl DecodingResponse
                | Some resultText \<Rightarrow>
                    let text = TrimSpace resultText in
                    if text = runes ''[BLANK_AUDIO]'' \<or> text = runes ''\<newline>[BLANK_AUDIO]''
                    then Inr []
                    else Inr text))"

subsection \<open>transcribeInChunks\<close>

text \<open>
  The loop over window starts. Besides the result it returns the arguments of the
  successive calls of \<^verbatim>\<open>transcribeChunk\<close>; the n-th call is answered by \<open>servers n\<close>.
\<close>

function chunkLoop ::
  "(nat \<Rightarrow> backend) \<Rightarrow> int16 list \<Rightarrow> nat \<Rightarrow> int16 list list \<Rightarrow> str
     \<Rightarrow> int16 list list \<times> (error + str)" where
  "chunkLoop servers samples start sent fullText =
     (if start < length samples then
        (let end = start + samplesPerChunk;
             end = (if end > length samples then length samples else end);
             chunk = take (end - start) (drop start samples)
         in case transcribeChunk (servers (length sent)) chunk of
              Inl err \<Rightarrow> (sent @ [chunk], Inl (TranscribingChunkAt start err))
            | Inr text \<Rightarrow>
                chunkLoop servers samples (start + (samplesPerChunk - overlapSamples))
                  (sent @ [chunk]) (fullText @ text @ runes '' ''))
      else (sent, Inr fullText))"
  by pat_completeness auto
termination
  by (relation "measure (\<lambda>(servers, samples, start, sent, fullText). length samples - start)")
     (auto simp: samplesPerChunk_def overlapSamples_def)

text \<open>
  The loop advances by \<open>stride\<close>, and its k-th slice \<^verbatim>\<open>samples[start:end]\<close>, with the end
  clipped to the length of the buffer, is \<open>window samples k\<close>.
\<close>

definition stride :: nat where
  "stride = samplesPerChunk - overlapSamples"

definition window :: "int16 list \<Rightarrow> nat \<Rightarrow> int16 list" where
  "window samples k = take samplesPerChunk (drop (k * stride) samples)"

definition remaining :: "nat \<Rightarrow> nat \<Rightarrow> nat" where
  "remaining len start = (len - start + (stride - 1)) div stride"

definition transcribeInChunks ::
  "(nat \<Rightarrow> backend) \<Rightarrow> int16 list \<Rightarrow> int16 list list \<times> (error + str)" where
  "transcribeInChunks servers samples =
     (if length samples \<le> samplesPerChunk
      then ([samples], transcribeChunk (servers 0) samples)
      else chunkLoop servers samples 0 [] [])"

subsection \<open>The audio channel and readNextChunk\<close>

record AudioChunk =
  timestamp :: time
  data :: "int16 list"

text \<open>
  A buffered Go channel: the queued values and whether it has been closed. A receive takes
  the oldest queued value; on an empty channel it is ready only when the channel is closed,
  and then yields the zero value.
\<close>

record chan =
  queue :: "AudioChunk list"
  closed :: bool

definition zeroChunk :: AudioChunk where
  "zeroChunk = \<lparr>timestamp = 0, data = []\<rparr>"

definition readNextChunk :: "chan \<Rightarrow> (AudioChunk \<times> bool) \<times> chan" where
  "readNextChunk audioChan =
     (case queue audioChan of
        chunk # rest \<Rightarrow> ((chunk, True), audioChan\<lparr>queue := rest\<rparr>)
      | [] \<Rightarrow> if closed audioChan then ((zeroChunk, True), audioChan)
              else ((zeroChunk, False), audioChan))"

text \<open>The results of n successive calls, and the channel they leave.\<close>

fun readMany :: "nat \<Rightarrow> chan \<Rightarrow> (AudioChunk \<times> bool) list \<times> chan" where
  "readMany 0 audioChan = ([], audioChan)"
| "readMany (Suc n) audioChan =
     (case readNextChunk audioChan of
        (r, ch) \<Rightarrow> (case readMany n ch of (rs, ch') \<Rightarrow> (r # rs, ch')))"

text \<open>
  The producer side, \<^verbatim>\<open>recordLoop\<close>: a send completes when the channel of capacity 10 has
  room (otherwise the producer stays blocked and nothing changes); \<^verbatim>\<open>close\<close> is the last
  thing the producer does, so no send follows it.
\<close>

definition chanSend :: "chan \<Rightarrow> AudioChunk \<Rightarrow> chan" where
  "chanSend audioChan chunk =
     (if closed audioChan \<or> length (queue audioChan) \<ge> 10 then audioChan
      else audioChan\<lparr>queue := queue audioChan @ [chunk]\<rparr>)"

definition chanClose :: "chan \<Rightarrow> chan" where
  "chanClose audioChan = audioChan\<lparr>closed := True\<rparr>"

subsection \<open>run and finalizeTranscript\<close>

text \<open>
  What the session does to the outside, in order: a call of \<^verbatim>\<open>transcribeChunk\<close> with its
  samples, a call of \<^verbatim>\<open>keyboard.typeText\<close>, and the two things \<^verbatim>\<open>finalizeTranscript\<close>
  prints to standard output.
\<close>

datatype effect =
    Transcribed "int16 list"
  | Typed str
  | PrintedFinal str
  | PrintedTranscript "str list"

record session =
  audioChan :: chan
  phraseBuffer :: "int16 list"
  transcriptLines :: "str list"
  silenceStart :: time
  effects :: "effect list"

definition initial :: session where
  "initial = \<lparr>audioChan = \<lparr>queue = [], closed = False\<rparr>, phraseBuffer = [],
               transcriptLines = [], silenceStart = 0, effects = []\<rparr>"

text \<open>\<^verbatim>\<open>time.Since(t)\<close> at clock reading \<open>now\<close>; a Duration saturates at the int64 bounds.\<close>

definition time_Since :: "time \<Rightarrow> time \<Rightarrow> duration" where
  "time_Since now t = max (- (2 ^ 63)) (min (2 ^ 63 - 1) (now - t))"

definition finalizeTranscript ::
  "backend \<Rightarrow> int16 list \<Rightarrow> str list \<Rightarrow> effect list \<times> error option" where
  "finalizeTranscript server buffer lines =
     (if length buffer > 0 then
        (case transcribeChunk server buffer of
           Inl err \<Rightarrow> ([Transcribed buffer], Some (FinalTranscriptionError err))
         | Inr text \<Rightarrow>
             ([Transcribed buffer, PrintedFinal text, PrintedTranscript (lines @ [text])], None))
      else ([PrintedTranscript lines], None))"

datatype outcome =
    Running session
  | Returned "error option" session
  | Panicked panic session

text \<open>
  One iteration of the loop of \<^verbatim>\<open>run\<close>: \<open>done\<close> tells whether \<^verbatim>\<open>ctx.Done()\<close> is ready,
  \<open>now\<close> is the clock reading used by \<^verbatim>\<open>time.Since\<close>, and \<open>server\<close> answers a request made
  during the iteration.
\<close>

definition iteration :: "bool \<Rightarrow> time \<Rightarrow> backend \<Rightarrow> session \<Rightarrow> outcome" where
  "iteration done now server s =
     (if done then
        (case finalizeTranscript server (phraseBuffer s) (transcriptLines s) of
           (fx, err) \<Rightarrow> Returned err (s\<lparr>effects := effects s @ fx\<rparr>))
      else
        (case readNextChunk (audioChan s) of
           ((chunk, ok), ch) \<Rightarrow>
             let s = s\<lparr>audioChan := ch\<rparr> in
             if \<not> ok then Running s
             else
               (case isSilent (data chunk) energyThreshold of
                  Inl p \<Rightarrow> Panicked p s
                | Inr True \<Rightarrow>
                    let s = (if silenceStart s = 0 then s\<lparr>silenceStart := timestamp chunk\<rparr>
                             else s)
                    in
                    if length (phraseBuffer s) > 0
                       \<and> time_Since now (silenceStart s) > silenceDuration
                    then
                      (case transcribeChunk server (phraseBuffer s) of
                         Inl err \<Rightarrow>
                           Returned (Some (TranscriptionError err))
                             (s\<lparr>effects := effects s @ [Transcribed (phraseBuffer s)]\<rparr>)
                       | Inr text \<Rightarrow>
                           Running
                             (s\<lparr>transcriptLines := transcriptLines s @ [text],
                                effects := effects s @ [Transcribed (phraseBuffer s), Typed text],
                                phraseBuffer := [],
                                silenceStart := 0\<rparr>))
                    else Running s
                | Inr False \<Rightarrow>
                    Running (s\<lparr>silenceStart := 0,
                               phraseBuffer := phraseBuffer s @ data chunk\<rparr>))))"

text \<open>
  A run of the session is driven by what its surroundings do: the producer sends a chunk,
  the producer closes the channel, or the consumer loop makes one iteration. The loop ends
  at the first iteration that returns or panics.
\<close>

datatype event =
    Send AudioChunk
  | Close
  | Iterate bool time backend

fun step :: "session \<Rightarrow> event \<Rightarrow> outcome" where
  "step s (Send chunk) = Running (s\<lparr>audioChan := chanSend (audioChan s) chunk\<rparr>)"
| "step s Close = Running (s\<lparr>audioChan := chanClose (audioChan s)\<rparr>)"
| "step s (Iterate done now server) = iteration done now server s"

fun run :: "session \<Rightarrow> event list \<Rightarrow> outcome" where
  "run s [] = Running s"
| "run s (e # es) =
     (case step s e of
        Running s' \<Rightarrow> run s' es
      | Returned err s' \<Rightarrow> Returned err s'
      | Panicked p s' \<Rightarrow> Panicked p s')"

fun final :: "outcome \<Rightarrow> session" where
  "final (Running s) = s"
| "final (Returned err s) = s"
| "final (Panicked p s) = s"

text \<open>The flushes of a session are the calls of \<^verbatim>\<open>transcribeChunk\<close> it has made.\<close>

fun flushes :: "effect list \<Rightarrow> int16 list list" where
  "flushes [] = []"
| "flushes (Transcribed b # fx) = b # flushes fx"
| "flushes (_ # fx) = flushes fx"

fun typed :: "effect list \<Rightarrow> str list" where
  "typed [] = []"
| "typed (Typed t # fx) = t # typed fx"
| "typed (_ # fx) = typed fx"

text \<open>
  The guard of the silence-triggered flush, as an iteration evaluates it on the chunk it
  reads: the chunk is silent, the phrase buffer is not empty, and the silence run, measured
  from the silence start (set to this chunk's timestamp when none is pending), is longer
  than \<open>silenceDuration\<close>.
\<close>

definition flushDue :: "time \<Rightarrow> session \<Rightarrow> bool" where
  "flushDue now s \<longleftrightarrow>
     (case readNextChunk (audioChan s) of
        ((chunk, ok), ch) \<Rightarrow>
          ok \<and> isSilent (data chunk) energyThreshold = Inr True \<and> phraseBuffer s \<noteq> []
          \<and> time_Since now (if silenceStart s = 0 then timestamp chunk else silenceStart s)
              > silenceDuration)"

text \<open>
  The invariant of a session that has heard nothing but silence since \<open>s0\<close>: the phrase
  buffer is empty, nothing was flushed or added to the transcript, and every queued chunk
  is silent.
\<close>

definition silentChunk :: "AudioChunk \<Rightarrow> bool" where
  "silentChunk chunk \<longleftrightarrow> isSilent (data chunk) energyThreshold = Inr True"

definition quiet :: "session \<Rightarrow> session \<Rightarrow> bool" where
  "quiet s0 s \<longleftrightarrow>
     phraseBuffer s = [] \<and> transcriptLines s = transcriptLines s0
     \<and> flushes (effects s) = flushes (effects s0)
     \<and> list_all silentChunk (queue (audioChan s))"

text \<open>
  The chunks the loop receives: what an event hands to it in state \<open>s\<close> (an iteration that
  is not cancelled and finds a chunk in the channel), and the chunks received over a run,
  oldest first.
\<close>

definition received :: "session \<Rightarrow> event \<Rightarrow> AudioChunk list" where
  "received s e =
     (case e of
        Iterate done now server \<Rightarrow>
          if done then []
          else (case readNextChunk (audioChan s) of ((chunk, ok), ch) \<Rightarrow> if ok then [chunk] else [])
      | _ \<Rightarrow> [])"

fun history :: "session \<Rightarrow> event list \<Rightarrow> AudioChunk list" where
  "history s [] = []"
| "history s (e # es) =
     received s e @ (case step s e of Running s' \<Rightarrow> history s' es | _ \<Rightarrow> [])"

text \<open>
  The current silence run of a history: the silent chunks received since the last chunk
  that was not silent. Its duration at clock reading \<open>now\<close> is counted from the timestamp of
  its first chunk, and is 0 when there is none.
\<close>

definition silenceRun :: "AudioChunk list \<Rightarrow> AudioChunk list" where
  "silenceRun h = rev (takeWhile silentChunk (rev h))"

definition silenceRunDuration :: "time \<Rightarrow> AudioChunk list \<Rightarrow> duration" where
  "silenceRunDuration now h =
     (case silenceRun h of [] \<Rightarrow> 0 | first # _ \<Rightarrow> time_Since now (timestamp first))"

definition silenceOnset :: "AudioChunk list \<Rightarrow> time" where
  "silenceOnset h = (case silenceRun h of [] \<Rightarrow> 0 | first # _ \<Rightarrow> timestamp first)"

text \<open>
  The invariant that ties the variable \<^verbatim>\<open>silenceStart\<close> to the history: while a phrase is
  buffered it is the onset of the current silence run, the zero Time when there is none. No
  chunk carries the zero Time as its timestamp (\<^verbatim>\<open>recordLoop\<close> stamps with \<^verbatim>\<open>time.Now()\<close>).
\<close>

definition tracked :: "session \<Rightarrow> AudioChunk list \<Rightarrow> bool" where
  "tracked s h \<longleftrightarrow>
     (phraseBuffer s \<noteq> [] \<longrightarrow> silenceStart s = silenceOnset h)
     \<and> list_all (\<lambda>c. timestamp c \<noteq> 0) (queue (audioChan s))
     \<and> list_all (\<lambda>c. timestamp c \<noteq> 0) h"

section \<open>The silence classifier\<close>

lemma sint_range16: "- 32768 \<le> sint (s::int16) \<and> sint s \<le> 32767"
  using sint_range_size [of s] by (simp add: word_size)

lemma sint_min16: "sint (s::int16) = - 32768 \<Longrightarrow> s = - 32768"
proof -
  assume "sint s = - 32768"
  then have "word_of_int (sint s) = (word_of_int (- 32768) :: int16)" by simp
  then show ?thesis by simp
qed

lemma sint_neg16: "s \<noteq> (- 32768 :: int16) \<Longrightarrow> sint (- s) = - sint s"
proof -
  assume "s \<noteq> - 32768"
  then have "sint s \<noteq> - 32768" using sint_min16 by blast
  with sint_range16 [of s] have "- 32768 < sint s" "sint s \<le> 32767" by auto
  then show ?thesis
    by (simp add: sint_word_minus signed_take_bit_int_eq_self)
qed

lemma sint_rectified:
  "s \<noteq> (- 32768 :: int16) \<Longrightarrow> sint (if s <s 0 then - s else s) = amplitude s"
proof (cases "s <s 0")
  case True
  moreover assume "s \<noteq> - 32768"
  ultimately show ?thesis
    using sint_neg16 [of s] by (simp add: amplitude_def word_sless_alt)
next
  case False
  then show ?thesis by (simp add: amplitude_def word_sless_alt)
qed

lemma add_abs_amplitude:
  "s \<noteq> - 32768 \<Longrightarrow> add_abs acc s = acc + word_of_int (amplitude s)"
proof -
  assume a: "s \<noteq> - 32768"
  show ?thesis
    unfolding add_abs_def Let_def scast_eq sint_rectified [OF a] by (rule refl)
qed

lemma foldl_add_abs:
  "\<forall>s \<in> set f. s \<noteq> - 32768 \<Longrightarrow>
   foldl add_abs acc f = acc + word_of_int (\<Sum>s\<leftarrow>f. amplitude s)"
  by (induction f arbitrary: acc) (simp_all add: add_abs_amplitude)

lemma amplitude_bounds: "0 \<le> amplitude s \<and> amplitude s \<le> 32768"
  using sint_range16 [of s] by (simp add: amplitude_def abs_le_iff)

lemma sum_amplitude_bounds:
  "0 \<le> (\<Sum>s\<leftarrow>f. amplitude s) \<and> (\<Sum>s\<leftarrow>f. amplitude s) \<le> 32768 * int (length f)"
proof (induction f)
  case Nil
  show ?case by simp
next
  case (Cons s f)
  with amplitude_bounds [of s] show ?case by simp
qed

lemma sint_int64:
  "- (2 ^ 63) \<le> k \<Longrightarrow> k < 2 ^ 63 \<Longrightarrow> sint (word_of_int k :: int64) = k"
  by (simp add: sint_sbintrunc' signed_take_bit_int_eq_self)

lemma quot_less_iff:
  fixes S t :: int and n :: nat
  assumes "0 < n"
  shows "S div int n < t \<longleftrightarrow> real_of_int S / real n < real_of_int t"
proof -
  have "S div int n = \<lfloor>real_of_int S / real_of_int (int n)\<rfloor>"
    by (simp only: floor_divide_of_int_eq)
  then show ?thesis by (simp add: floor_less_iff)
qed

text \<open>
  Away from the two inputs treated below (the empty frame and the sample -32768) the
  classifier is the comparison of the specification: a frame is silent exactly when its
  energy is below the threshold. The length bound keeps the 64-bit sum from overflowing.
\<close>

lemma isSilent_energy:
  assumes "f \<noteq> []" and "length f < 2 ^ 47" and "\<forall>s \<in> set f. s \<noteq> - 32768"
  shows "isSilent f threshold = Inr (energy f < real_of_int (sint threshold))"
proof -
  let ?S = "\<Sum>s\<leftarrow>f. amplitude s"
  let ?n = "length f"
  have n: "0 < ?n" "int ?n < 2 ^ 47" using assms by simp_all
  have S: "0 \<le> ?S" "?S < 2 ^ 63"
    using sum_amplitude_bounds [of f] n by simp_all
  have total: "foldl add_abs 0 f = word_of_int ?S"
    using foldl_add_abs [OF assms(3), of 0] by simp
  have len: "sint (word_of_nat ?n :: int64) = int ?n"
    using sint_int64 [of "int ?n"] n by simp
  have nz: "(word_of_nat ?n :: int64) \<noteq> 0"
    using len n by auto
  have q: "0 \<le> ?S div int ?n" "?S div int ?n < 2 ^ 63"
  proof -
    show "0 \<le> ?S div int ?n" using S n by (simp add: pos_imp_zdiv_nonneg_iff)
    have "?S div int ?n \<le> ?S" using S n int_div_le_self by force
    then show "?S div int ?n < 2 ^ 63" using S by linarith
  qed
  have sd: "?S sdiv int ?n = ?S div int ?n"
    using S n by (simp add: signed_divide_int_def sgn_if)
  have avg: "int64_quot (word_of_int ?S) (word_of_nat ?n) = Inr (word_of_int (?S div int ?n))"
    using nz len sd S by (simp add: int64_quot_def sint_int64)
  have "isSilent f threshold = Inr (?S div int ?n < sint threshold)"
    using q by (simp add: isSilent_def total avg word_sless_alt sint_int64)
  then show ?thesis
    using quot_less_iff [OF n(1), of ?S "sint threshold"] by (simp add: energy_def)
qed

lemma isSilent_boundary: "isSilent [80] energyThreshold = Inr False"
  by (simp add: isSilent_def int64_quot_def add_abs_def energyThreshold_def
      signed_divide_int_def word_sless_alt)

lemma isSilent_Nil: "isSilent [] threshold = Inl DivideByZero"
  by (simp add: isSilent_def int64_quot_def)

lemma isSilent_returns:
  assumes "f \<noteq> []" and "length f < 2 ^ 64"
  shows "\<exists>b. isSilent f threshold = Inr b"
proof -
  have "unat (word_of_nat (length f) :: int64) = length f"
    unfolding unat_of_nat using assms(2) by simp
  with assms(1) have "(word_of_nat (length f) :: int64) \<noteq> 0"
    by (metis length_0_conv unat_0)
  then show ?thesis by (simp add: isSilent_def int64_quot_def)
qed

text \<open>
  C1. The claim: the energy computation is guarded against a zero-length frame, so that
  \<^verbatim>\<open>isSilent\<close> never divides by zero. The code has no guard: on the empty frame the divisor
  \<^verbatim>\<open>int64(len(data))\<close> is 0 and the quotient panics, whatever the threshold. The loop of
  \<^verbatim>\<open>run\<close> meets that frame: when the producer closes the channel before sending anything
  (the capture process did not start), the first iteration reads the zero-value chunk and
  panics.
\<close>

theorem isSilent_empty_frame_panics:
  "isSilent [] threshold = Inl DivideByZero
   \<and> run initial [Close, Iterate False now server]
       = Panicked DivideByZero (initial\<lparr>audioChan := \<lparr>queue = [], closed = True\<rparr>\<rparr>)"
  by (simp add: isSilent_def int64_quot_def initial_def chanClose_def iteration_def
      readNextChunk_def zeroChunk_def)

text \<open>A full-scale square wave: n periods of the two samples 32767 and -32768.\<close>

lemma foldl_add_abs_square:
  "foldl add_abs acc (concat (replicate n [32767, - 32768])) = acc - word_of_nat n"
  by (induction n arbitrary: acc) (simp_all add: add_abs_def word_sless_alt)

lemma length_square: "length (concat (replicate n [a, b])) = 2 * n"
  by (induction n) simp_all

lemma sum_amplitude_square:
  "(\<Sum>s\<leftarrow>concat (replicate n [32767, - 32768]). amplitude s) = 65535 * int n"
  by (induction n) (simp_all add: amplitude_def)

text \<open>
  C2. The claim: a non-empty frame is silent exactly when its mean absolute amplitude is
  below the threshold. The code negates a negative sample as an \<^verbatim>\<open>int16\<close>, and -32768 has
  no 16-bit negation, so that sample is added as -32768. The frame holding that one sample
  has energy 32768, far above the threshold of 80, and the code calls it silent; so it does
  the one-second frame (16000 samples) of a full-scale square wave, of energy 32767.5.
\<close>

theorem isSilent_min_sample_silent:
  "isSilent [- 32768] energyThreshold = Inr True \<and> energy [- 32768] = 32768
   \<and> isSilent (concat (replicate 8000 [32767, - 32768])) energyThreshold = Inr True
   \<and> energy (concat (replicate 8000 [32767, - 32768])) = 32767.5"
  by (simp add: isSilent_def int64_quot_def add_abs_def energyThreshold_def
      signed_divide_int_def energy_def amplitude_def foldl_add_abs_square length_square
      sum_amplitude_square [unfolded amplitude_def] word_sless_alt)

section \<open>The WAV encoder\<close>

lemma u16le_le16: "u16le (le16 w @ bs) = w"
proof -
  have "ucast (ucast w :: byte) OR push_bit 8 (ucast (ucast (drop_bit 8 w) :: byte)) = w"
    (is "?L = _")
  proof (rule bit_word_eqI)
    fix n :: nat
    assume "n < LENGTH(16)"
    then have n: "n < 16" by simp
    consider "n < 8" | "8 \<le> n" by linarith
    then show "bit ?L n = bit w n"
      using n by cases (auto simp: bit_simps)
  qed
  then show ?thesis by (simp add: le16_def)
qed

lemma u32le_le32: "u32le (le32 w @ bs) = w"
proof -
  have "ucast (ucast w :: byte) OR push_bit 8 (ucast (ucast (drop_bit 8 w) :: byte))
        OR push_bit 16 (ucast (ucast (drop_bit 16 w) :: byte))
        OR push_bit 24 (ucast (ucast (drop_bit 24 w) :: byte)) = w" (is "?L = _")
  proof (rule bit_word_eqI)
    fix n :: nat
    assume "n < LENGTH(32)"
    then have n: "n < 32" by simp
    consider "n < 8" | "8 \<le> n" "n < 16" | "16 \<le> n" "n < 24" | "24 \<le> n"
      by linarith
    then show "bit ?L n = bit w n"
      using n by cases (auto simp: bit_simps)
  qed
  then show ?thesis by (simp add: le32_def)
qed

lemma length_le16: "length (le16 w) = 2"
  by (simp add: le16_def)

lemma length_le32: "length (le32 w) = 4"
  by (simp add: le32_def)

lemma length_ascii: "length (ascii s) = length s"
  by (simp add: ascii_def)

lemma length_pcm_bytes: "length (concat (map le16 samples)) = 2 * length samples"
  by (induction samples) (simp_all add: length_le16)

lemma pcm16_le16: "pcm16 (le16 w @ bs) = w # pcm16 bs"
  using u16le_le16 [of w "[]"] by (simp add: le16_def)

lemma pcm16_pcm_bytes: "pcm16 (concat (map le16 samples)) = samples"
  by (induction samples) (simp_all add: pcm16_le16)

text \<open>The output, field by field: 44 bytes of header, then two bytes per sample.\<close>

lemma wav_layout:
  "writeWavToBuffer buffer samples sr ch =
     buffer @ ascii ''RIFF'' @ le32 (36 + word_of_nat (2 * length samples)) @ ascii ''WAVE''
       @ ascii ''fmt '' @ le32 16 @ le16 1 @ le16 (word_of_int ch) @ le32 (word_of_int sr)
       @ le32 (word_of_int (sr * ch * 2)) @ le16 (word_of_int (ch * 2)) @ le16 16
       @ ascii ''data'' @ le32 (word_of_nat (2 * length samples))
       @ concat (map le16 samples)"
  by (simp add: writeWavToBuffer_def Let_def length_pcm_bytes)

lemma length_wav:
  "length (writeWavToBuffer buffer samples sr ch) = length buffer + 44 + 2 * length samples"
  by (simp add: wav_layout length_le16 length_le32 length_ascii length_pcm_bytes)

lemma drop44_wav: "drop 44 (writeWavToBuffer [] samples sr ch) = concat (map le16 samples)"
  by (simp add: wav_layout length_le16 length_le32 length_ascii)

text \<open>
  What the reader recovers from the output for any number of samples: the size field is
  the byte count truncated to 32 bits, and as many bytes of data are read as it says.
\<close>

lemma parseWav_wav:
  "parseWav (writeWavToBuffer [] samples sr ch) =
     Some \<lparr>audioFormat = 1, numChannels = word_of_int ch, sampleRateHz = word_of_int sr,
           bitsPerSample = 16, dataSize = word_of_nat (2 * length samples),
           pcm = pcm16 (take (unat (word_of_nat (2 * length samples) :: uint32))
                          (concat (map le16 samples)))\<rparr>"
proof -
  let ?n = "unat (word_of_nat (2 * length samples) :: uint32)"
  have n: "?n \<le> 2 * length samples"
    unfolding unat_of_nat by (rule mod_less_eq_dividend)
  then have "\<not> length (writeWavToBuffer [] samples sr ch) < 44 + ?n"
    by (simp add: length_wav)
  moreover have "u32le (drop 40 (writeWavToBuffer [] samples sr ch))
                   = word_of_nat (2 * length samples)"
    by (simp add: wav_layout length_le16 length_le32 length_ascii u32le_le32)
  ultimately show ?thesis
    by (simp add: parseWav_def wav_layout length_le16 length_le32 length_ascii length_pcm_bytes
      u32le_le32 u16le_le16 Let_def)
qed

text \<open>
  C7, as amended. For every sequence of fewer than 2^31 samples and every sample rate that
  fits 32 bits, the encoder writes a 44-byte canonical header followed by the data, and
  reading the output back recovers format code 1 (PCM), one channel, 16 bits per sample,
  the sample rate, a data size of twice the number of samples, and the samples themselves
  in order.
\<close>

theorem wav_round_trip:
  assumes "length samples < 2 ^ 31" and "0 \<le> sr" and "sr < 2 ^ 32"
  shows "parseWav (writeWavToBuffer [] samples sr channels) =
           Some \<lparr>audioFormat = 1, numChannels = 1, sampleRateHz = word_of_int sr,
                 bitsPerSample = 16, dataSize = word_of_nat (2 * length samples),
                 pcm = samples\<rparr>
         \<and> uint (word_of_int sr :: uint32) = sr
         \<and> unat (word_of_nat (2 * length samples) :: uint32) = 2 * length samples
         \<and> length (writeWavToBuffer [] samples sr channels) = 44 + 2 * length samples
         \<and> drop 44 (writeWavToBuffer [] samples sr channels) = concat (map le16 samples)"
proof -
  have n: "unat (word_of_nat (2 * length samples) :: uint32) = 2 * length samples"
    unfolding unat_of_nat using assms(1) by simp
  have sr: "uint (word_of_int sr :: uint32) = sr"
    using assms(2,3) by (simp add: uint_word_of_int)
  show ?thesis
    using n sr
    by (simp add: parseWav_wav length_wav drop44_wav length_pcm_bytes pcm16_pcm_bytes channels_def)
qed

theorem wav_round_trip_witness:
  "parseWav (writeWavToBuffer [] [1, - 2, 258] 16000 channels) =
     Some \<lparr>audioFormat = 1, numChannels = 1, sampleRateHz = 16000,
           bitsPerSample = 16, dataSize = 6, pcm = [1, - 2, 258]\<rparr>
   \<and> length (writeWavToBuffer [] [1, - 2, 258] 16000 channels) = 50"
  using wav_round_trip [of "[1, - 2, 258]" 16000] by simp

text \<open>
  C7 as stated, for every number of samples, fails at 2^31 samples: the byte count 2^32 does
  not fit the 32-bit size field, which reads 0, and no sample is recovered.
\<close>

theorem wav_size_field_wraps:
  "parseWav (writeWavToBuffer [] (replicate (2 ^ 31) 0) sampleRate channels) =
     Some \<lparr>audioFormat = 1, numChannels = 1, sampleRateHz = 16000,
           bitsPerSample = 16, dataSize = 0, pcm = []\<rparr>
   \<and> 2 * length (replicate (2 ^ 31) (0 :: int16)) = 4294967296"
  by (simp add: parseWav_wav sampleRate_def channels_def)

section \<open>The backend client\<close>

text \<open>
  C6. For every successful backend response (status 200, a body that decodes), if the text
  field trimmed of white space equals the sentinel [BLANK_AUDIO], with or without a leading
  line break, \<^verbatim>\<open>transcribeChunk\<close> returns the empty string and no error.
\<close>

theorem transcribeChunk_blank_audio:
  assumes "server (writeWavToBuffer [] samples sampleRate channels) = Response 200 (Some t)"
    and "TrimSpace t = runes ''[BLANK_AUDIO]'' \<or> TrimSpace t = runes ''\<newline>[BLANK_AUDIO]''"
  shows "transcribeChunk server samples = Inr []"
  using assms by (auto simp: transcribeChunk_def Let_def)

theorem transcribeChunk_blank_audio_witness:
  "transcribeChunk (\<lambda>wav. Response 200 (Some (runes ''\<newline>[BLANK_AUDIO] ''))) [1, - 2] = Inr []"
  using transcribeChunk_blank_audio
    [of "\<lambda>wav. Response 200 (Some (runes ''\<newline>[BLANK_AUDIO] ''))" "[1, - 2]"
        "runes ''\<newline>[BLANK_AUDIO] ''"]
  by (simp add: TrimSpace_def runes_def isSpace_def)

text \<open>
  The second comparison of the source never decides: a trimmed text does not start with a
  line break. A response whose raw text has the leading line break is caught by the first.
\<close>

lemma TrimSpace_no_leading_space: "TrimSpace t = r # rs \<Longrightarrow> \<not> isSpace r"
proof -
  assume a: "TrimSpace t = r # rs"
  let ?u = "dropWhile isSpace t"
  have "rev ?u = takeWhile isSpace (rev ?u) @ dropWhile isSpace (rev ?u)" by simp
  then have "?u = rev (dropWhile isSpace (rev ?u)) @ rev (takeWhile isSpace (rev ?u))"
    by (metis rev_append rev_rev_ident)
  with a have u: "?u = (r # rs) @ rev (takeWhile isSpace (rev ?u))"
    by (simp add: TrimSpace_def)
  then have "?u \<noteq> []" by (metis Nil_is_append_conv list.discI)
  then have "\<not> isSpace (hd ?u)" by (rule hd_dropWhile)
  moreover have "hd ?u = r" by (subst u) simp
  ultimately show ?thesis by simp
qed

lemma leading_newline_trimmed:
  "TrimSpace (runes ''\<newline>[BLANK_AUDIO]'') = runes ''[BLANK_AUDIO]''"
  by (simp add: TrimSpace_def runes_def isSpace_def)

lemma second_comparison_dead: "TrimSpace t \<noteq> runes ''\<newline>[BLANK_AUDIO]''"
proof
  assume "TrimSpace t = runes ''\<newline>[BLANK_AUDIO]''"
  then have "TrimSpace t = 10 # runes ''[BLANK_AUDIO]''" by (simp add: runes_def)
  then have "\<not> isSpace 10" by (rule TrimSpace_no_leading_space)
  then show False by (simp add: isSpace_def)
qed

section \<open>The chunking splitter\<close>

lemma stride_pos: "0 < stride"
  by (simp add: stride_def samplesPerChunk_def overlapSamples_def)

lemma chunk_slice:
  "take ((if start + samplesPerChunk > length samples then length samples
          else start + samplesPerChunk) - start) (drop start samples)
   = take samplesPerChunk (drop start samples)"
  by simp

lemma chunkLoop_unfold:
  "start < length samples \<Longrightarrow>
   chunkLoop servers samples start sent fullText =
     (case transcribeChunk (servers (length sent)) (take samplesPerChunk (drop start samples)) of
        Inl err \<Rightarrow> (sent @ [take samplesPerChunk (drop start samples)],
                     Inl (TranscribingChunkAt start err))
      | Inr text \<Rightarrow>
          chunkLoop servers samples (start + stride)
            (sent @ [take samplesPerChunk (drop start samples)]) (fullText @ text @ runes '' ''))"
proof -
  assume lt: "start < length samples"
  show ?thesis
    by (subst chunkLoop.simps) (simp only: lt if_True Let_def chunk_slice stride_def)
qed

lemma chunkLoop_exit:
  "\<not> start < length samples \<Longrightarrow> chunkLoop servers samples start sent fullText = (sent, Inr fullText)"
  by (subst chunkLoop.simps) simp

lemma ceil_div_0:
  fixes d S :: nat
  assumes "0 < S"
  shows "(d + (S - 1)) div S = 0 \<longleftrightarrow> d = 0"
  using assms by (auto simp: div_eq_0_iff)

lemma ceil_div_Suc:
  fixes d S :: nat
  assumes "0 < S" and "0 < d"
  shows "(d + (S - 1)) div S = Suc ((d - S + (S - 1)) div S)"
proof (cases "S \<le> d")
  case True
  then have "d + (S - 1) = (d - S + (S - 1)) + S" by simp
  then show ?thesis using assms(1) by (metis div_add_self2 Suc_eq_plus1 less_numeral_extra(3))
next
  case False
  then have "d - S = 0" by simp
  moreover have "(d + (S - 1)) div S = 1"
  proof (rule div_nat_eqI)
    show "S * 1 \<le> d + (S - 1)" using assms by simp
    show "d + (S - 1) < S * Suc 1" using False assms by simp
  qed
  ultimately show ?thesis using assms(1) by simp
qed

lemma remaining_0: "remaining len start = 0 \<longleftrightarrow> \<not> start < len"
  using ceil_div_0 [OF stride_pos, of "len - start"] by (auto simp: remaining_def)

lemma remaining_Suc: "start < len \<Longrightarrow> remaining len start = Suc (remaining len (start + stride))"
  using ceil_div_Suc [OF stride_pos, of "len - start"] by (simp add: remaining_def)

lemma chunkLoop_all_ok:
  assumes "n = remaining (length samples) start"
    and "\<forall>j<n. transcribeChunk (servers (length sent + j))
                  (take samplesPerChunk (drop (start + j * stride) samples))
                = Inr (texts (length sent + j))"
  shows "chunkLoop servers samples start sent fullText =
           (sent @ map (\<lambda>j. take samplesPerChunk (drop (start + j * stride) samples)) [0..<n],
            Inr (fullText @ concat (map (\<lambda>j. texts (length sent + j) @ runes '' '') [0..<n])))"
  using assms
proof (induction n arbitrary: start sent fullText)
  case 0
  then have "\<not> start < length samples" by (simp add: remaining_0)
  then show ?case by (simp add: chunkLoop_exit)
next
  case (Suc n)
  let ?chunk = "take samplesPerChunk (drop start samples)"
  have lt: "start < length samples"
    using Suc.prems(1) remaining_0 [of "length samples" start] by auto
  then have n: "n = remaining (length samples) (start + stride)"
    using Suc.prems(1) remaining_Suc [of start "length samples"] by simp
  have first: "transcribeChunk (servers (length sent)) ?chunk = Inr (texts (length sent))"
    using Suc.prems(2) by (elim allE [of _ 0]) simp
  have rest: "\<forall>j<n. transcribeChunk (servers (length (sent @ [?chunk]) + j))
                  (take samplesPerChunk (drop (start + stride + j * stride) samples))
                = Inr (texts (length (sent @ [?chunk]) + j))"
  proof (intro allI impI)
    fix j assume "j < n"
    then have "Suc j < Suc n" by simp
    with Suc.prems(2) show "transcribeChunk (servers (length (sent @ [?chunk]) + j))
                  (take samplesPerChunk (drop (start + stride + j * stride) samples))
                = Inr (texts (length (sent @ [?chunk]) + j))"
      by (elim allE [of _ "Suc j"]) (simp add: ac_simps)
  qed
  have up: "[0..<Suc n] = 0 # map Suc [0..<n]"
    by (simp add: upt_conv_Cons map_Suc_upt del: upt_Suc)
  show ?case
    unfolding chunkLoop_unfold [OF lt] first sum.case Suc.IH [OF n rest] up
    by (simp add: comp_def ac_simps)
qed

lemma ceiling_div_nat:
  fixes a b :: nat
  assumes "0 < b"
  shows "nat \<lceil>real a / real b\<rceil> = (a + (b - 1)) div b"
proof -
  let ?q = "(a + (b - 1)) div b"
  have "a + (b - 1) = ?q * b + (a + (b - 1)) mod b" by simp
  moreover have "(a + (b - 1)) mod b < b" using assms by simp
  ultimately have up: "a \<le> ?q * b" by linarith
  have "?q * b \<le> a + (b - 1)" by simp
  then have lo: "?q * b < a + b" using assms by linarith
  have "\<lceil>real a / real b\<rceil> = int ?q"
  proof (rule ceiling_unique)
    have "real (?q * b) < real (a + b)" using lo by (simp only: of_nat_less_iff)
    then have "(real ?q - 1) * real b < real a" by (simp add: algebra_simps)
    then have "real ?q - 1 < real a / real b"
      using assms by (simp only: pos_less_divide_eq of_nat_0_less_iff)
    then show "of_int (int ?q) - 1 < real a / real b" by simp
    have "real a \<le> real (?q * b)" using up by (simp only: of_nat_le_iff)
    then show "real a / real b \<le> of_int (int ?q)"
      using assms by (simp add: pos_divide_le_eq)
  qed
  then show ?thesis by simp
qed

lemma ceil_div_bounds:
  fixes a b :: nat
  assumes "0 < b"
  shows "a \<le> (a + (b - 1)) div b * b \<and> (a + (b - 1)) div b * b < a + b"
proof -
  let ?q = "(a + (b - 1)) div b"
  have "a + (b - 1) = ?q * b + (a + (b - 1)) mod b" by simp
  moreover have "(a + (b - 1)) mod b < b" using assms by simp
  ultimately have up: "a \<le> ?q * b" by linarith
  have "?q * b \<le> a + (b - 1)" by simp
  then have lo: "?q * b < a + b" using assms by linarith
  from up lo show ?thesis by (rule conjI)
qed

lemma stride_value: "stride = 8000"
  by (simp add: stride_def samplesPerChunk_def overlapSamples_def)

lemma length_window: "length (window samples k) = min samplesPerChunk (length samples - k * stride)"
  by (simp add: window_def)

lemma transcribeInChunks_windows:
  assumes "samplesPerChunk < length samples"
    and "n = nat \<lceil>real (length samples) / real (samplesPerChunk - overlapSamples)\<rceil>"
    and "\<forall>k<n. transcribeChunk (servers k) (window samples k) = Inr (texts k)"
  shows "transcribeInChunks servers samples =
           (map (window samples) [0..<n],
            Inr (concat (map (\<lambda>k. texts k @ runes '' '') [0..<n])))"
proof -
  have n: "n = remaining (length samples) 0"
    using assms(2) ceiling_div_nat [OF stride_pos, of "length samples"]
    by (simp add: remaining_def stride_def)
  have "chunkLoop servers samples 0 [] [] =
          ([] @ map (\<lambda>j. take samplesPerChunk (drop (0 + j * stride) samples)) [0..<n],
           Inr ([] @ concat (map (\<lambda>j. texts (length ([] :: int16 list list) + j) @ runes '' '') [0..<n])))"
    using assms(3) by (intro chunkLoop_all_ok [OF n]) (simp add: window_def)
  then show ?thesis
    using assms(1) by (simp add: transcribeInChunks_def window_def)
qed

lemma window_overlap:
  assumes "n = nat \<lceil>real (length samples) / real (samplesPerChunk - overlapSamples)\<rceil>"
    and "Suc k < n"
  shows "k * stride + length (window samples k) - Suc k * stride =
           (if Suc (Suc k) < n then overlapSamples else length (window samples (Suc k)))"
proof -
  have n: "n = (length samples + (stride - 1)) div stride"
    using assms(1) ceiling_div_nat [OF stride_pos, of "length samples"] by (simp add: stride_def)
  have "length samples \<le> n * stride \<and> n * stride < length samples + stride"
    unfolding n by (rule ceil_div_bounds [OF stride_pos])
  then have b: "length samples \<le> n * stride" "n * stride < length samples + stride"
    by blast+
  show ?thesis
  proof (cases "Suc (Suc k) < n")
    case True
    then have "Suc (Suc (Suc k)) \<le> n" by simp
    then have "Suc (Suc (Suc k)) * stride \<le> n * stride" by (rule mult_le_mono1)
    with b(2) have "Suc (Suc k) * stride < length samples" by simp
    then show ?thesis
      using True by (simp add: length_window stride_value samplesPerChunk_def overlapSamples_def)
  next
    case False
    with assms(2) have k: "n = Suc (Suc k)" by simp
    from b k have "length samples \<le> Suc (Suc k) * stride" "Suc k * stride < length samples"
      by simp_all
    then show ?thesis
      using False by (simp add: length_window stride_value samplesPerChunk_def overlapSamples_def)
  qed
qed

text \<open>
  C8, as amended. For every buffer longer than the window size W = samplesPerChunk, whose
  windows are all transcribed without error, the splitter makes n = ceil(L / (W - O)) calls
  for length L and overlap O = overlapSamples. The k-th window starts at sample
  k * (W - O) and is at most W samples long (it is clipped to the end of the buffer).
  Consecutive windows overlap by exactly O samples, except the last two, whose overlap is
  the whole of the last window. The result is the texts of the windows in order, each
  followed by a single space.
\<close>

theorem chunk_windows:
  assumes "samplesPerChunk < length samples"
    and "n = nat \<lceil>real (length samples) / real (samplesPerChunk - overlapSamples)\<rceil>"
    and "\<forall>k<n. transcribeChunk (servers k) (window samples k) = Inr (texts k)"
  shows "fst (transcribeInChunks servers samples) = map (window samples) [0..<n]
       \<and> length (fst (transcribeInChunks servers samples)) = n
       \<and> (\<forall>k<n. length (window samples k) \<le> samplesPerChunk)
       \<and> (\<forall>k. Suc k < n \<longrightarrow>
             k * stride + length (window samples k) - Suc k * stride =
               (if Suc (Suc k) < n then overlapSamples else length (window samples (Suc k))))
       \<and> snd (transcribeInChunks servers samples) =
             Inr (concat (map (\<lambda>k. texts k @ runes '' '') [0..<n]))"
  using transcribeInChunks_windows [OF assms] window_overlap [OF assms(2)]
  by (simp add: length_window)

theorem chunk_windows_witness:
  "fst (transcribeInChunks (\<lambda>k wav. Response 200 (Some (runes ''a''))) (replicate 24001 7))
     = map (window (replicate 24001 7)) [0..<4]
   \<and> snd (transcribeInChunks (\<lambda>k wav. Response 200 (Some (runes ''a''))) (replicate 24001 7))
     = Inr (runes ''a a a a '')"
  using chunk_windows [of "replicate 24001 7" 4 "\<lambda>k wav. Response 200 (Some (runes ''a''))"
      "\<lambda>k. runes ''a''"]
  by (simp add: samplesPerChunk_def overlapSamples_def transcribeChunk_def TrimSpace_def
      runes_def isSpace_def upt_rec)

text \<open>
  C8 as stated, with ceil((L - O) / (W - O)) windows, fails on a buffer of 16001 samples:
  the claimed count is 2, and the loop, which runs while the start is inside the buffer,
  transcribes 3 windows (the third holds the last sample alone). Each text, the last one
  too, is followed by a space.
\<close>

theorem chunk_count_counterexample:
  "length (fst (transcribeInChunks (\<lambda>k wav. Response 200 (Some (runes ''a'')))
                 (replicate 16001 0))) = 3
   \<and> nat \<lceil>(real (length (replicate 16001 (0 :: int16))) - real overlapSamples)
            / (real samplesPerChunk - real overlapSamples)\<rceil> = 2
   \<and> snd (transcribeInChunks (\<lambda>k wav. Response 200 (Some (runes ''a''))) (replicate 16001 0))
       = Inr (runes ''a a a '')"
proof -
  have ok: "\<forall>k<3. transcribeChunk ((\<lambda>k wav. Response 200 (Some (runes ''a''))) k)
                     (window (replicate 16001 0) k) = Inr ((\<lambda>k. runes ''a'') k)"
    by (simp add: transcribeChunk_def TrimSpace_def runes_def isSpace_def)
  have "transcribeInChunks (\<lambda>k wav. Response 200 (Some (runes ''a''))) (replicate 16001 0) =
           (map (window (replicate 16001 0)) [0..<3],
            Inr (concat (map (\<lambda>k. (\<lambda>k. runes ''a'') k @ runes '' '') [0..<3])))"
    by (rule transcribeInChunks_windows [OF _ _ ok])
       (simp_all add: samplesPerChunk_def overlapSamples_def)
  then show ?thesis
    by (simp add: samplesPerChunk_def overlapSamples_def runes_def upt_rec)
qed

section \<open>The audio channel\<close>

lemma readNextChunk_closed_drained:
  "closed ch \<Longrightarrow> queue ch = [] \<Longrightarrow> readNextChunk ch = ((zeroChunk, True), ch)"
  by (simp add: readNextChunk_def)

lemma readNextChunk_closed_ok:
  "closed ch \<Longrightarrow> snd (fst (readNextChunk ch)) \<and> closed (snd (readNextChunk ch))"
  by (simp add: readNextChunk_def split: list.splits)

lemma readMany_closed:
  "closed ch \<Longrightarrow>
   readMany n ch =
     (map (\<lambda>c. (c, True)) (take n (queue ch)) @ replicate (n - length (queue ch)) (zeroChunk, True),
      ch\<lparr>queue := drop n (queue ch)\<rparr>)"
proof (induction n arbitrary: ch)
  case 0
  then show ?case by simp
next
  case (Suc n)
  show ?case
  proof (cases "queue ch")
    case Nil
    with Suc.prems have "readNextChunk ch = ((zeroChunk, True), ch)"
      by (simp add: readNextChunk_closed_drained)
    with Suc.IH [OF Suc.prems] Nil show ?thesis by simp
  next
    case (Cons c rest)
    then have r: "readNextChunk ch = ((c, True), ch\<lparr>queue := rest\<rparr>)"
      by (simp add: readNextChunk_def)
    have "closed (ch\<lparr>queue := rest\<rparr>)" using Suc.prems by simp
    from Suc.IH [OF this] r Cons show ?thesis by simp
  qed
qed

text \<open>
  C10, as amended. Once the producer has closed the audio channel, every later call of
  \<^verbatim>\<open>readNextChunk\<close> returns ok = true: the chunks still queued come first, in order, and
  after them every call returns the zero-value AudioChunk (no samples, zero timestamp) and
  leaves the channel as it is. Stream end therefore never shows as the empty-queue idle
  condition.
\<close>

theorem closed_channel_reads:
  assumes "closed ch"
  shows "readMany n ch =
           (map (\<lambda>c. (c, True)) (take n (queue ch))
              @ replicate (n - length (queue ch)) (zeroChunk, True),
            ch\<lparr>queue := drop n (queue ch)\<rparr>)"
  using assms by (rule readMany_closed)

theorem closed_channel_reads_witness:
  "readMany 3 \<lparr>queue = [\<lparr>timestamp = 7, data = [100]\<rparr>], closed = True\<rparr> =
     ([(\<lparr>timestamp = 7, data = [100]\<rparr>, True), (zeroChunk, True), (zeroChunk, True)],
      \<lparr>queue = [], closed = True\<rparr>)"
  using closed_channel_reads [of "\<lparr>queue = [\<lparr>timestamp = 7, data = [100]\<rparr>], closed = True\<rparr>" 3]
  by (simp add: numeral_2_eq_2)

text \<open>
  C10 as stated, a zero-value chunk on every call after the close, fails when a chunk is
  still queued at the close: the next call returns that chunk.
\<close>

theorem closed_channel_counterexample:
  "closed \<lparr>queue = [\<lparr>timestamp = 7, data = [100]\<rparr>], closed = True\<rparr> \<and>
   fst (readNextChunk \<lparr>queue = [\<lparr>timestamp = 7, data = [100]\<rparr>], closed = True\<rparr>)
     = (\<lparr>timestamp = 7, data = [100]\<rparr>, True) \<and>
   fst (readNextChunk \<lparr>queue = [\<lparr>timestamp = 7, data = [100]\<rparr>], closed = True\<rparr>)
     \<noteq> (zeroChunk, True)"
  by (simp add: readNextChunk_def zeroChunk_def)

text \<open>
  What the consumer loop makes of it: on a closed and drained channel an iteration does
  not idle; it hands the empty frame to \<^verbatim>\<open>isSilent\<close>, which panics.
\<close>

lemma iteration_closed_drained_panics:
  "closed (audioChan s) \<Longrightarrow> queue (audioChan s) = [] \<Longrightarrow>
   iteration False now server s = Panicked DivideByZero s"
  by (simp add: iteration_def readNextChunk_def zeroChunk_def isSilent_Nil)

section \<open>The segmentation loop\<close>

lemma flushes_append: "flushes (fx @ gx) = flushes fx @ flushes gx"
  by (induction fx rule: flushes.induct) simp_all

lemma typed_append: "typed (fx @ gx) = typed fx @ typed gx"
  by (induction fx rule: typed.induct) simp_all

lemma finalizeTranscript_flushes:
  "flushes (fst (finalizeTranscript server buffer lines)) = (if buffer = [] then [] else [buffer])"
  by (simp add: finalizeTranscript_def split: sum.splits)

lemma iteration_done:
  "iteration True now server s =
     Returned (snd (finalizeTranscript server (phraseBuffer s) (transcriptLines s)))
       (s\<lparr>effects := effects s @ fst (finalizeTranscript server (phraseBuffer s) (transcriptLines s))\<rparr>)"
  by (simp add: iteration_def split: prod.splits)

lemma run_Iterate_done:
  "run s (Iterate True now server # es) = iteration True now server s"
  by (simp add: iteration_done)

lemma wav_of_100:
  "writeWavToBuffer [] [100] sampleRate channels = [82, 73, 70, 70, 38, 0, 0, 0, 87, 65, 86, 69, 102, 109, 116, 32, 16, 0, 0, 0,
                 1, 0, 1, 0, 128, 62, 0, 0, 0, 125, 0, 0, 2, 0, 16, 0, 100, 97, 116, 97,
                 2, 0, 0, 0, 100, 0]"
  by (simp add: writeWavToBuffer_def sampleRate_def channels_def ascii_def le16_def le32_def)

text \<open>
  C4. On cancellation the loop returns through \<^verbatim>\<open>finalizeTranscript\<close>, whatever the silence
  state and whatever events would follow. When the phrase buffer is empty no flush is
  made. When it is not, exactly one flush is made, and its input is exactly the buffered
  samples: the error returned and the text printed are those of \<^verbatim>\<open>transcribeChunk\<close> on the
  phrase buffer, and the outcome depends on the backend only through its answer to the WAV
  file of the buffered samples.
\<close>

theorem cancellation_final_flush:
  "run s (Iterate True now server # es) =
     (if phraseBuffer s = []
      then Returned None (s\<lparr>effects := effects s @ [PrintedTranscript (transcriptLines s)]\<rparr>)
      else case transcribeChunk server (phraseBuffer s) of
             Inl err \<Rightarrow>
               Returned (Some (FinalTranscriptionError err))
                 (s\<lparr>effects := effects s @ [Transcribed (phraseBuffer s)]\<rparr>)
           | Inr text \<Rightarrow>
               Returned None
                 (s\<lparr>effects := effects s @
                     [Transcribed (phraseBuffer s), PrintedFinal text,
                      PrintedTranscript (transcriptLines s @ [text])]\<rparr>))
   \<and> flushes (effects (final (run s (Iterate True now server # es))))
       = flushes (effects s) @ (if phraseBuffer s = [] then [] else [phraseBuffer s])
   \<and> (server' (writeWavToBuffer [] (phraseBuffer s) sampleRate channels)
         = server (writeWavToBuffer [] (phraseBuffer s) sampleRate channels)
       \<longrightarrow> run s (Iterate True now' server' # es') = run s (Iterate True now server # es))"
proof (intro conjI impI)
  show r: "run s (Iterate True now server # es) =
     (if phraseBuffer s = []
      then Returned None (s\<lparr>effects := effects s @ [PrintedTranscript (transcriptLines s)]\<rparr>)
      else case transcribeChunk server (phraseBuffer s) of
             Inl err \<Rightarrow>
               Returned (Some (FinalTranscriptionError err))
                 (s\<lparr>effects := effects s @ [Transcribed (phraseBuffer s)]\<rparr>)
           | Inr text \<Rightarrow>
               Returned None
                 (s\<lparr>effects := effects s @
                     [Transcribed (phraseBuffer s), PrintedFinal text,
                      PrintedTranscript (transcriptLines s @ [text])]\<rparr>))"
    by (simp add: iteration_def finalizeTranscript_def split: sum.splits)
  show "flushes (effects (final (run s (Iterate True now server # es))))
       = flushes (effects s) @ (if phraseBuffer s = [] then [] else [phraseBuffer s])"
    unfolding r by (simp add: flushes_append split: sum.splits)
next
  assume "server' (writeWavToBuffer [] (phraseBuffer s) sampleRate channels)
         = server (writeWavToBuffer [] (phraseBuffer s) sampleRate channels)"
  then have "transcribeChunk server' (phraseBuffer s) = transcribeChunk server (phraseBuffer s)"
    by (simp add: transcribeChunk_def)
  then have "finalizeTranscript server' (phraseBuffer s) (transcriptLines s)
               = finalizeTranscript server (phraseBuffer s) (transcriptLines s)"
    by (simp add: finalizeTranscript_def)
  then show "run s (Iterate True now' server' # es') = run s (Iterate True now server # es)"
    by (simp only: run_Iterate_done iteration_done)
qed

theorem cancellation_final_flush_witness:
  "run \<lparr>audioChan = \<lparr>queue = [\<lparr>timestamp = 5, data = [1]\<rparr>], closed = False\<rparr>,
      phraseBuffer = [100], transcriptLines = [], silenceStart = 0, effects = []\<rparr>
     [Iterate True 7
        (\<lambda>wav. if wav = [82, 73, 70, 70, 38, 0, 0, 0, 87, 65, 86, 69, 102, 109, 116, 32, 16, 0, 0, 0,
                 1, 0, 1, 0, 128, 62, 0, 0, 0, 125, 0, 0, 2, 0, 16, 0, 100, 97, 116, 97,
                 2, 0, 0, 0, 100, 0]
            then Response 200 (Some (runes ''hi'')) else TransportFailure)]
   = Returned None
       \<lparr>audioChan = \<lparr>queue = [\<lparr>timestamp = 5, data = [1]\<rparr>], closed = False\<rparr>,
        phraseBuffer = [100], transcriptLines = [], silenceStart = 0,
        effects = [Transcribed [100], PrintedFinal (runes ''hi''),
                   PrintedTranscript [runes ''hi'']]\<rparr>
   \<and> flushes (effects (final (run \<lparr>audioChan = \<lparr>queue = [\<lparr>timestamp = 5, data = [1]\<rparr>], closed = False\<rparr>,
      phraseBuffer = [100], transcriptLines = [], silenceStart = 0, effects = []\<rparr>
     [Iterate True 7
        (\<lambda>wav. if wav = [82, 73, 70, 70, 38, 0, 0, 0, 87, 65, 86, 69, 102, 109, 116, 32, 16, 0, 0, 0,
                 1, 0, 1, 0, 128, 62, 0, 0, 0, 125, 0, 0, 2, 0, 16, 0, 100, 97, 116, 97,
                 2, 0, 0, 0, 100, 0]
            then Response 200 (Some (runes ''hi'')) else TransportFailure)])))
       = [[100]]"
  using cancellation_final_flush
    [of "\<lparr>audioChan = \<lparr>queue = [\<lparr>timestamp = 5, data = [1]\<rparr>], closed = False\<rparr>,
      phraseBuffer = [100], transcriptLines = [], silenceStart = 0, effects = []\<rparr>"
        7 "(\<lambda>wav. if wav = [82, 73, 70, 70, 38, 0, 0, 0, 87, 65, 86, 69, 102, 109, 116, 32, 16, 0, 0, 0,
                 1, 0, 1, 0, 128, 62, 0, 0, 0, 125, 0, 0, 2, 0, 16, 0, 100, 97, 116, 97,
                 2, 0, 0, 0, 100, 0]
            then Response 200 (Some (runes ''hi'')) else TransportFailure)" "[]"]
  by (simp add: wav_of_100 transcribeChunk_def TrimSpace_def runes_def isSpace_def)

lemma iteration_flush_iff:
  "flushes (effects (final (iteration False now server s))) \<noteq> flushes (effects s)
   \<longleftrightarrow> flushDue now s"
  by (auto simp: iteration_def flushDue_def Let_def flushes_append
      split: prod.splits sum.splits bool.splits if_splits)

lemma iteration_flush_cases:
  assumes "flushDue now s"
  shows "iteration False now server s =
     (let s1 = s\<lparr>audioChan := snd (readNextChunk (audioChan s)),
                  silenceStart := (if silenceStart s = 0
                                   then timestamp (fst (fst (readNextChunk (audioChan s))))
                                   else silenceStart s)\<rparr>
      in case transcribeChunk server (phraseBuffer s) of
        Inl err \<Rightarrow> Returned (Some (TranscriptionError err))
                     (s1\<lparr>effects := effects s @ [Transcribed (phraseBuffer s)]\<rparr>)
      | Inr text \<Rightarrow> Running
                     (s1\<lparr>transcriptLines := transcriptLines s @ [text],
                         effects := effects s @ [Transcribed (phraseBuffer s), Typed text],
                         phraseBuffer := [], silenceStart := 0\<rparr>))"
  using assms
  by (auto simp: iteration_def flushDue_def Let_def 
      split: prod.splits sum.splits bool.splits if_splits)

lemma quiet_iteration:
  assumes "quiet s0 s"
  shows "quiet s0 (final (iteration done now server s))"
proof (cases "done")
  case True
  with assms show ?thesis
    by (simp add: iteration_done quiet_def flushes_append finalizeTranscript_flushes)
next
  case False
  with assms show ?thesis
    by (auto simp: iteration_def quiet_def silentChunk_def readNextChunk_def Let_def
        zeroChunk_def isSilent_Nil split: list.splits sum.splits bool.splits)
qed

lemma quiet_step:
  assumes "quiet s0 s" and "\<forall>chunk. e = Send chunk \<longrightarrow> silentChunk chunk"
  shows "quiet s0 (final (step s e))"
proof (cases e)
  case (Send chunk)
  with assms show ?thesis by (simp add: quiet_def chanSend_def)
next
  case Close
  with assms show ?thesis by (simp add: quiet_def chanClose_def)
next
  case (Iterate d now server)
  with assms quiet_iteration show ?thesis by simp
qed

lemma quiet_run:
  assumes "quiet s0 s" and "\<forall>chunk. Send chunk \<in> set es \<longrightarrow> silentChunk chunk"
  shows "quiet s0 (final (run s es))"
  using assms
proof (induction es arbitrary: s)
  case Nil
  then show ?case by simp
next
  case (Cons e es)
  have q: "quiet s0 (final (step s e))"
    using Cons.prems by (intro quiet_step) auto
  show ?case
  proof (cases "step s e")
    case (Running s')
    with q have "quiet s0 s'" by simp
    with Cons.IH [of s'] Cons.prems(2) Running show ?thesis by simp
  next
    case (Returned err s')
    with q show ?thesis by simp
  next
    case (Panicked p s')
    with q show ?thesis by simp
  qed
qed

text \<open>
  The variable \<^verbatim>\<open>silenceStart\<close> follows the history of the session: the speech branch
  resets it, the first silent chunk after that sets it, and later silent chunks leave it.
\<close>

lemma silenceRun_snoc:
  "silenceRun (h @ [c]) = (if silentChunk c then silenceRun h @ [c] else [])"
  by (simp add: silenceRun_def)

lemma set_silenceRun: "set (silenceRun h) \<subseteq> set h"
  unfolding silenceRun_def using set_takeWhileD by fastforce

lemma silenceOnset_nonzero:
  assumes "list_all (\<lambda>c. timestamp c \<noteq> 0) h" and "silenceRun h \<noteq> []"
  shows "silenceOnset h \<noteq> 0"
proof -
  from assms(2) obtain first rest where r: "silenceRun h = first # rest"
    by (cases "silenceRun h") auto
  then have "first \<in> set h" using set_silenceRun [of h] by auto
  with assms(1) have "timestamp first \<noteq> 0" by (simp add: list_all_iff)
  with r show ?thesis by (simp add: silenceOnset_def)
qed

lemma silenceOnset_empty: "silenceRun h = [] \<Longrightarrow> silenceOnset h = 0"
  by (simp add: silenceOnset_def)

lemma silenceOnset_snoc_speech: "\<not> silentChunk c \<Longrightarrow> silenceOnset (h @ [c]) = 0"
  by (simp add: silenceOnset_def silenceRun_snoc)

lemma silenceOnset_snoc_silent:
  "silentChunk c \<Longrightarrow>
   silenceOnset (h @ [c]) = (if silenceRun h = [] then timestamp c else silenceOnset h)"
  by (cases "silenceRun h") (simp_all add: silenceOnset_def silenceRun_snoc)

text \<open>The silence start the loop compares with, once the chunk is read.\<close>

lemma tracked_onset:
  assumes "tracked s h" and "phraseBuffer s \<noteq> []" and "silentChunk c"
  shows "(if silenceStart s = 0 then timestamp c else silenceStart s) = silenceOnset (h @ [c])"
proof (cases "silenceRun h = []")
  case True
  with assms show ?thesis
    by (simp add: tracked_def silenceOnset_snoc_silent silenceOnset_empty)
next
  case False
  with assms(1) have "silenceOnset h \<noteq> 0"
    by (simp add: tracked_def silenceOnset_nonzero)
  with assms False show ?thesis
    by (simp add: tracked_def silenceOnset_snoc_silent)
qed

lemma silenceRunDuration_onset:
  "silenceRun h \<noteq> [] \<Longrightarrow> silenceRunDuration now h = time_Since now (silenceOnset h)"
  by (cases "silenceRun h") (simp_all add: silenceRunDuration_def silenceOnset_def)


lemma tracked_iteration:
  assumes "tracked s h" and "iteration False now server s = Running s'"
  shows "tracked s' (h @ received s (Iterate False now server))"
proof (cases "queue (audioChan s)")
  case Nil
  show ?thesis
  proof (cases "closed (audioChan s)")
    case True
    with Nil assms(2) show ?thesis
      by (simp add: iteration_def readNextChunk_def zeroChunk_def isSilent_Nil)
  next
    case False
    with Nil assms show ?thesis
      by (auto simp: iteration_def readNextChunk_def received_def tracked_def)
  qed
next
  case (Cons c rest)
  then have rd: "readNextChunk (audioChan s) = ((c, True), (audioChan s)\<lparr>queue := rest\<rparr>)"
    by (simp add: readNextChunk_def)
  then have rc: "received s (Iterate False now server) = [c]"
    by (simp add: received_def)
  from assms(1) Cons have stamps: "timestamp c \<noteq> 0" "list_all (\<lambda>c. timestamp c \<noteq> 0) rest"
      "list_all (\<lambda>c. timestamp c \<noteq> 0) h"
    by (simp_all add: tracked_def)
  show ?thesis
  proof (cases "isSilent (data c) energyThreshold")
    case (Inl p)
    with rd assms(2) show ?thesis by (simp add: iteration_def)
  next
    case (Inr b)
    show ?thesis
    proof (cases b)
      case False
      with Inr have ns: "\<not> silentChunk c" by (simp add: silentChunk_def)
      from False Inr rd assms(2)
      have "s' = s\<lparr>audioChan := (audioChan s)\<lparr>queue := rest\<rparr>, silenceStart := 0,
                     phraseBuffer := phraseBuffer s @ data c\<rparr>"
        by (simp add: iteration_def)
      with stamps ns show ?thesis
        by (simp add: rc tracked_def silenceOnset_snoc_speech)
    next
      case True
      with Inr have sil: "silentChunk c" by (simp add: silentChunk_def)
      show ?thesis
      proof (cases "phraseBuffer s = []")
        case True
        with \<open>b\<close> Inr rd assms(2) have "phraseBuffer s' = []"
          "queue (audioChan s') = rest"
          by (auto simp: iteration_def Let_def split: if_splits)
        with stamps show ?thesis by (simp add: rc tracked_def)
      next
        case False
        from tracked_onset [OF assms(1) False sil]
        have on: "(if silenceStart s = 0 then timestamp c else silenceStart s)
                    = silenceOnset (h @ [c])" .
        from \<open>b\<close> Inr rd assms(2) False
        have "queue (audioChan s') = rest"
          and "phraseBuffer s' \<noteq> [] \<longrightarrow>
                 silenceStart s' = (if silenceStart s = 0 then timestamp c else silenceStart s)"
          by (auto simp: iteration_def Let_def split: if_splits sum.splits)
        with on stamps show ?thesis by (simp add: rc tracked_def)
      qed
    qed
  qed
qed

lemma tracked_step:
  assumes "tracked s h" and "\<forall>chunk. e = Send chunk \<longrightarrow> timestamp chunk \<noteq> 0"
    and "step s e = Running s'"
  shows "tracked s' (h @ received s e)"
proof (cases e)
  case (Send chunk)
  with assms show ?thesis by (auto simp: tracked_def received_def chanSend_def)
next
  case Close
  with assms show ?thesis by (auto simp: tracked_def received_def chanClose_def)
next
  case (Iterate d now server)
  show ?thesis
  proof (cases d)
    case True
    with Iterate assms(3) show ?thesis by (simp add: iteration_done)
  next
    case False
    with Iterate assms tracked_iteration show ?thesis by simp
  qed
qed

lemma tracked_run:
  assumes "tracked s h" and "\<forall>chunk. Send chunk \<in> set es \<longrightarrow> timestamp chunk \<noteq> 0"
    and "run s es = Running s'"
  shows "tracked s' (h @ history s es)"
  using assms
proof (induction es arbitrary: s h)
  case Nil
  then show ?case by simp
next
  case (Cons e es)
  from Cons.prems(3) obtain s1 where s1: "step s e = Running s1" and r: "run s1 es = Running s'"
    by (cases "step s e") simp_all
  have "tracked s1 (h @ received s e)"
    using Cons.prems(1,2) s1 by (intro tracked_step) auto
  from Cons.IH [OF this _ r] Cons.prems(2) s1 show ?case by simp
qed

lemma tracked_initial: "tracked initial []"
  by (simp add: tracked_def initial_def)

lemma flushDue_silenceRun:
  assumes "tracked s h"
  shows "flushDue now s \<longleftrightarrow>
           phraseBuffer s \<noteq> []
           \<and> (case received s (Iterate False now server) of
                [] \<Rightarrow> False
              | chunk # _ \<Rightarrow>
                  silentChunk chunk \<and> silenceRunDuration now (h @ [chunk]) > silenceDuration)"
proof (cases "readNextChunk (audioChan s)")
  case (Pair r ch)
  obtain chunk ok where r: "r = (chunk, ok)" by (cases r)
  show ?thesis
  proof (cases "ok \<and> silentChunk chunk \<and> phraseBuffer s \<noteq> []")
    case True
    then have run: "silenceRun (h @ [chunk]) \<noteq> []" by (simp add: silenceRun_snoc)
    from True tracked_onset [OF assms, of chunk]
    have "(if silenceStart s = 0 then timestamp chunk else silenceStart s)
            = silenceOnset (h @ [chunk])" by simp
    with True Pair r run show ?thesis
      by (simp add: flushDue_def received_def silentChunk_def silenceRunDuration_onset)
  next
    case False
    with Pair r show ?thesis
      by (auto simp: flushDue_def received_def silentChunk_def)
  qed
qed

text \<open>
  C3. In every session that started from the initial state, an iteration of the
  segmentation loop flushes only when (in fact exactly when) the phrase buffer is not empty,
  the chunk it receives is silent, and the current silence run, counted from the first
  silent chunk received since the last speech chunk, has lasted longer than
  silenceDuration. Consequently a session that starts with an empty phrase buffer and is
  sent silent frames only makes no flush and its transcript stays empty, however the
  producer and the consumer interleave and whether or not it is cancelled.
\<close>

theorem flush_only_after_silence:
  "((\<forall>chunk. Send chunk \<in> set es \<longrightarrow> timestamp chunk \<noteq> 0) \<and> run initial es = Running s
      \<longrightarrow> (flushes (effects (final (iteration False now server s))) \<noteq> flushes (effects s)
           \<longleftrightarrow> phraseBuffer s \<noteq> []
               \<and> (case received s (Iterate False now server) of
                    [] \<Rightarrow> False
                  | chunk # _ \<Rightarrow>
                      silentChunk chunk
                      \<and> silenceRunDuration now (history initial es @ [chunk]) > silenceDuration)))
   \<and> ((\<forall>chunk. Send chunk \<in> set es' \<longrightarrow> isSilent (data chunk) energyThreshold = Inr True)
      \<longrightarrow> flushes (effects (final (run initial es'))) = []
          \<and> transcriptLines (final (run initial es')) = [])"
proof (intro conjI impI)
  assume a: "(\<forall>chunk. Send chunk \<in> set es \<longrightarrow> timestamp chunk \<noteq> 0) \<and> run initial es = Running s"
  then have "tracked s ([] @ history initial es)"
    by (intro tracked_run [OF tracked_initial]) simp_all
  then have "tracked s (history initial es)" by simp
  from flushDue_silenceRun [OF this, of now server]
  show "flushes (effects (final (iteration False now server s))) \<noteq> flushes (effects s)
           \<longleftrightarrow> phraseBuffer s \<noteq> []
               \<and> (case received s (Iterate False now server) of
                    [] \<Rightarrow> False
                  | chunk # _ \<Rightarrow>
                      silentChunk chunk
                      \<and> silenceRunDuration now (history initial es @ [chunk]) > silenceDuration)"
    by (simp only: iteration_flush_iff)
next
  assume "\<forall>chunk. Send chunk \<in> set es' \<longrightarrow> isSilent (data chunk) energyThreshold = Inr True"
  then have "\<forall>chunk. Send chunk \<in> set es' \<longrightarrow> silentChunk chunk"
    by (simp add: silentChunk_def)
  moreover have "quiet initial initial" by (simp add: quiet_def initial_def)
  ultimately have q: "quiet initial (final (run initial es'))"
    using quiet_run by blast
  from q show "flushes (effects (final (run initial es'))) = []"
    by (simp add: quiet_def initial_def)
  from q show "transcriptLines (final (run initial es')) = []"
    by (simp add: quiet_def initial_def)
qed

theorem flush_only_after_silence_witness:
  "run initial
         [Send \<lparr>timestamp = 5, data = [100]\<rparr>, Iterate False 6 (\<lambda>wav. Response 200 (Some (runes ''hi''))),
          Send \<lparr>timestamp = 1000000005, data = [1]\<rparr>, Iterate False 1000000006 (\<lambda>wav. Response 200 (Some (runes ''hi''))),
          Send \<lparr>timestamp = 2000000005, data = [2]\<rparr>]
     = Running
         \<lparr>audioChan = \<lparr>queue = [\<lparr>timestamp = 2000000005, data = [2]\<rparr>], closed = False\<rparr>,
          phraseBuffer = [100], transcriptLines = [], silenceStart = 1000000005, effects = []\<rparr>
   \<and> history initial
         [Send \<lparr>timestamp = 5, data = [100]\<rparr>, Iterate False 6 (\<lambda>wav. Response 200 (Some (runes ''hi''))),
          Send \<lparr>timestamp = 1000000005, data = [1]\<rparr>, Iterate False 1000000006 (\<lambda>wav. Response 200 (Some (runes ''hi''))),
          Send \<lparr>timestamp = 2000000005, data = [2]\<rparr>]
     = [\<lparr>timestamp = 5, data = [100]\<rparr>, \<lparr>timestamp = 1000000005, data = [1]\<rparr>]
   \<and> silenceRunDuration 2000000006
        [\<lparr>timestamp = 5, data = [100]\<rparr>, \<lparr>timestamp = 1000000005, data = [1]\<rparr>, \<lparr>timestamp = 2000000005, data = [2]\<rparr>] = 1000000001
   \<and> flushes (effects (final (iteration False 2000000006 (\<lambda>wav. Response 200 (Some (runes ''hi'')))
         \<lparr>audioChan = \<lparr>queue = [\<lparr>timestamp = 2000000005, data = [2]\<rparr>], closed = False\<rparr>,
          phraseBuffer = [100], transcriptLines = [], silenceStart = 1000000005, effects = []\<rparr>))) = [[100]]
   \<and> flushes (effects (final (run initial
         [Send \<lparr>timestamp = 5, data = [1]\<rparr>, Iterate False 6 (\<lambda>wav. Response 200 (Some (runes ''hi''))),
          Send \<lparr>timestamp = 1000000005, data = [- 2, 3]\<rparr>,
          Iterate False 1000000006 (\<lambda>wav. Response 200 (Some (runes ''hi''))), Iterate True 1000000007 (\<lambda>wav. Response 200 (Some (runes ''hi'')))]))) = []"
  using flush_only_after_silence
    [of "[Send \<lparr>timestamp = 5, data = [100]\<rparr>, Iterate False 6 (\<lambda>wav. Response 200 (Some (runes ''hi''))),
          Send \<lparr>timestamp = 1000000005, data = [1]\<rparr>, Iterate False 1000000006 (\<lambda>wav. Response 200 (Some (runes ''hi''))),
          Send \<lparr>timestamp = 2000000005, data = [2]\<rparr>]"
        "\<lparr>audioChan = \<lparr>queue = [\<lparr>timestamp = 2000000005, data = [2]\<rparr>], closed = False\<rparr>,
          phraseBuffer = [100], transcriptLines = [], silenceStart = 1000000005, effects = []\<rparr>"
        2000000006 "(\<lambda>wav. Response 200 (Some (runes ''hi'')))"
        "[Send \<lparr>timestamp = 5, data = [1]\<rparr>, Iterate False 6 (\<lambda>wav. Response 200 (Some (runes ''hi''))),
          Send \<lparr>timestamp = 1000000005, data = [- 2, 3]\<rparr>,
          Iterate False 1000000006 (\<lambda>wav. Response 200 (Some (runes ''hi''))), Iterate True 1000000007 (\<lambda>wav. Response 200 (Some (runes ''hi'')))]"]
  by (simp add: initial_def iteration_def chanSend_def readNextChunk_def isSilent_def
      int64_quot_def add_abs_def energyThreshold_def signed_divide_int_def word_sless_alt
      time_Since_def silenceDuration_def transcribeChunk_def TrimSpace_def runes_def
      isSpace_def received_def silentChunk_def silenceRunDuration_def silenceRun_def)

text \<open>
  C9. If \<^verbatim>\<open>transcribeChunk\<close> returns an error during a flush, silence-triggered or final,
  the session returns at once with that error (wrapped), whatever events would follow. The
  phrase was submitted exactly once, the transcript is what it was before the flush, and
  nothing was typed.
\<close>

theorem transcription_error_ends_session:
  assumes "transcribeChunk server (phraseBuffer s) = Inl err"
    and "(done \<and> phraseBuffer s \<noteq> []) \<or> (\<not> done \<and> flushDue now s)"
  shows "run s (Iterate done now server # es) =
           Returned (Some (if done then FinalTranscriptionError err else TranscriptionError err))
             (final (iteration done now server s))
         \<and> transcriptLines (final (iteration done now server s)) = transcriptLines s
         \<and> flushes (effects (final (iteration done now server s)))
             = flushes (effects s) @ [phraseBuffer s]
         \<and> typed (effects (final (iteration done now server s))) = typed (effects s)"
proof (cases "done")
  case True
  with assms show ?thesis
    by (simp add: iteration_done finalizeTranscript_def flushes_append typed_append)
next
  case False
  with assms have "flushDue now s" by simp
  from iteration_flush_cases [OF this, of server] assms(1) False show ?thesis
    by (simp add: flushes_append typed_append)
qed

theorem transcription_error_ends_session_witness:
  "run \<lparr>audioChan = \<lparr>queue = [\<lparr>timestamp = 5, data = [1]\<rparr>], closed = False\<rparr>,
      phraseBuffer = [100], transcriptLines = [], silenceStart = 0, effects = []\<rparr>
     [Iterate False 1000000000 (\<lambda>wav. TransportFailure),
      Iterate False 2000000000 (\<lambda>wav. Response 200 (Some (runes ''hi'')))]
   = Returned (Some (TranscriptionError ExecutingRequest))
       \<lparr>audioChan = \<lparr>queue = [], closed = False\<rparr>, phraseBuffer = [100],
        transcriptLines = [], silenceStart = 5, effects = [Transcribed [100]]\<rparr>"
  using transcription_error_ends_session
    [of "\<lambda>wav. TransportFailure"
        "\<lparr>audioChan = \<lparr>queue = [\<lparr>timestamp = 5, data = [1]\<rparr>], closed = False\<rparr>,
      phraseBuffer = [100], transcriptLines = [], silenceStart = 0, effects = []\<rparr>"
        ExecutingRequest False 1000000000
        "[Iterate False 2000000000 (\<lambda>wav. Response 200 (Some (runes ''hi'')))]"]
  by (simp add: flushDue_def readNextChunk_def isSilent_def int64_quot_def add_abs_def
      energyThreshold_def signed_divide_int_def word_sless_alt time_Since_def
      silenceDuration_def iteration_def transcribeChunk_def)

text \<open>
  Every text the loop obtains from a silence-triggered flush is typed in the same
  iteration, right after the call that produced it, so what has been typed is the
  transcript, in order. The final flush types nothing.
\<close>

lemma final_flush_not_typed:
  "typed (effects (final (iteration True now server s))) = typed (effects s)"
  by (simp add: iteration_done finalizeTranscript_def typed_append split: sum.splits)

lemma run_typed_transcript_aux:
  "typed (effects s) = transcriptLines s \<Longrightarrow>
   typed (effects (final (run s es))) = transcriptLines (final (run s es))"
proof (induction es arbitrary: s)
  case Nil
  then show ?case by simp
next
  case (Cons e es)
  have "typed (effects (final (step s e))) = transcriptLines (final (step s e))"
  proof (cases e)
    case (Iterate d now server)
    with Cons.prems show ?thesis
      by (cases d)
        (auto simp: iteration_def finalizeTranscript_def typed_append Let_def
          split: prod.splits sum.splits bool.splits)
  qed (use Cons.prems in simp_all)
  with Cons.IH show ?case by (cases "step s e") simp_all
qed

lemma run_typed_transcript:
  "typed (effects (final (run initial es))) = transcriptLines (final (run initial es))"
  by (rule run_typed_transcript_aux) (simp add: initial_def)

text \<open>
  C5. The claim: the text of every flush, the final flush at cancellation included, is
  forwarded to the text-injection sink. The silence-triggered flush calls
  \<^verbatim>\<open>keyboard.typeText\<close>; \<^verbatim>\<open>finalizeTranscript\<close> only prints. In the session below one
  speech frame is buffered and the session is cancelled: the phrase is transcribed to
  "hi", which is printed and never typed.
\<close>

theorem final_flush_printed_not_typed:
  "run initial
     [Send \<lparr>timestamp = 5, data = [100]\<rparr>,
      Iterate False 6 (\<lambda>wav. Response 200 (Some (runes ''hi''))),
      Iterate True 7 (\<lambda>wav. Response 200 (Some (runes ''hi'')))]
   = Returned None
       \<lparr>audioChan = \<lparr>queue = [], closed = False\<rparr>, phraseBuffer = [100],
        transcriptLines = [], silenceStart = 0,
        effects = [Transcribed [100], PrintedFinal (runes ''hi''),
                   PrintedTranscript [runes ''hi'']]\<rparr>"
  by (simp add: initial_def iteration_def chanSend_def readNextChunk_def isSilent_def
      int64_quot_def add_abs_def energyThreshold_def signed_divide_int_def word_sless_alt
      finalizeTranscript_def transcribeChunk_def TrimSpace_def runes_def isSpace_def)

end
